theory Spec2Isabelle
  imports Complex_Main
begin

section \<open>The simulation engine of game.js\<close>

text \<open>
  The embedding follows the first copy of the program in \<^verbatim>\<open>src/game.js\<close> (lines 1-371).
  The second copy in the same file has the same \<^verbatim>\<open>setup\<close>, \<^verbatim>\<open>getSpawnInterval\<close>,
  \<^verbatim>\<open>spawnThrone\<close>, \<^verbatim>\<open>update\<close> and \<^verbatim>\<open>checkCollisions\<close>; it differs in drawing and in
  audio calls only.

  JavaScript numbers are modelled as exact reals, the score (which starts at 0 and is only
  ever incremented) as a natural number. The three module-level variables \<^verbatim>\<open>gameState\<close>,
  \<^verbatim>\<open>bird\<close> and \<^verbatim>\<open>thrones\<close> are the fields of one record that every function takes and
  returns. Calls into the browser (DOM class list, audio, \<^verbatim>\<open>setTimeout\<close>) are appended to a
  trace in the order the code makes them.
\<close>

subsection \<open>Constants\<close>

definition CANVAS_WIDTH :: real where "CANVAS_WIDTH = 1920"
definition CANVAS_HEIGHT :: real where "CANVAS_HEIGHT = 1080"
definition GRAVITY :: real where "GRAVITY = 0.5"
definition JUMP_STRENGTH :: real where "JUMP_STRENGTH = - 8"
definition INITIAL_THRONE_SPEED :: real where "INITIAL_THRONE_SPEED = 12"
definition INITIAL_SPAWN_INTERVAL :: nat where "INITIAL_SPAWN_INTERVAL = 3000"
definition THRONE_GAP :: real where "THRONE_GAP = 800"
definition THRONE_WIDTH :: real where "THRONE_WIDTH = 360"
definition SPEED_INCREASE_RATE :: real where "SPEED_INCREASE_RATE = 0.1"

subsection \<open>Data\<close>

text \<open>The bird and every throne are rectangles with the fields \<^verbatim>\<open>x, y, width, height\<close>.\<close>

record rect =
  x :: real
  y :: real
  width :: real
  height :: real

record bird = rect +
  velocity :: real

record throne = rect +
  passed :: bool

record gameState =
  running :: bool
  gameOver :: bool
  score :: nat
  currentThroneSpeed :: real
  musicStarted :: bool

text \<open>The calls the engine makes into the browser.\<close>

datatype effect =
    HideGameOverScreen
  | ShowGameOverScreen
  | PlayBackgroundMusic
  | PauseBackgroundMusic
  | PlayJumpSound
  | SetTimeoutSpawn nat

record game =
  gameState :: gameState
  bird :: bird
  thrones :: "throne list"
  trace :: "effect list"

text \<open>The module-level initial values (lines 22-41).\<close>

definition initial :: game where
  "initial =
     \<lparr> gameState = \<lparr> running = False, gameOver = False, score = 0,
                     currentThroneSpeed = INITIAL_THRONE_SPEED, musicStarted = False \<rparr>,
       bird = \<lparr> x = 400, y = CANVAS_HEIGHT / 2, width = 360, height = 203, velocity = 0 \<rparr>,
       thrones = [],
       trace = [] \<rparr>"

definition emit :: "effect \<Rightarrow> game \<Rightarrow> game" where
  "emit e g = g\<lparr> trace := trace g @ [e] \<rparr>"

subsection \<open>setup (lines 61-87)\<close>

text \<open>The source function \<^verbatim>\<open>setup\<close>; the name alone is reserved in Isabelle.\<close>

definition setup_game :: "game \<Rightarrow> game" where
  "setup_game g =
     (let g1 = g\<lparr> gameState := (gameState g)\<lparr> running := True, gameOver := False, score := 0,
                      currentThroneSpeed := INITIAL_THRONE_SPEED \<rparr> \<rparr>;
          g2 = g1\<lparr> bird := (bird g1)\<lparr> y := CANVAS_HEIGHT / 2, velocity := 0 \<rparr> \<rparr>;
          g3 = g2\<lparr> thrones := [] \<rparr>;
          g4 = emit HideGameOverScreen g3;
          g5 = (if musicStarted (gameState g4) then emit PlayBackgroundMusic g4 else g4)
      in emit (SetTimeoutSpawn 2000) g5)"

subsection \<open>Throne spawning (lines 92-136)\<close>

definition getSpawnInterval :: "game \<Rightarrow> nat" where
  "getSpawnInterval g =
     (if score (gameState g) < 10 then INITIAL_SPAWN_INTERVAL
      else if score (gameState g) < 20 then 2500
      else if score (gameState g) < 50 then 2000
      else if score (gameState g) < 100 then 1500
      else 1000)"

text \<open>
  \<^verbatim>\<open>spawnThrone\<close> is the timer callback. Its first argument is the value that
  \<^verbatim>\<open>Math.random()\<close> returns in this call, a number in \<open>[0, 1)\<close>.
\<close>

definition spawnThrone :: "real \<Rightarrow> game \<Rightarrow> game" where
  "spawnThrone r g =
     (if \<not> running (gameState g) \<or> gameOver (gameState g) then g
      else
        let minGapY = 400;
            maxGapY = CANVAS_HEIGHT - THRONE_GAP - 400;
            gapY = r * (maxGapY - minGapY) + minGapY;
            g1 = g\<lparr> thrones := thrones g @
                   [\<lparr> x = CANVAS_WIDTH, y = 0, width = THRONE_WIDTH, height = gapY,
                      passed = False \<rparr>] \<rparr>;
            g2 = g1\<lparr> thrones := thrones g1 @
                   [\<lparr> x = CANVAS_WIDTH, y = gapY + THRONE_GAP, width = THRONE_WIDTH,
                      height = CANVAS_HEIGHT - (gapY + THRONE_GAP), passed = False \<rparr>] \<rparr>;
            spawnInterval = getSpawnInterval g2
        in emit (SetTimeoutSpawn spawnInterval) g2)"

subsection \<open>endGame (lines 312-321)\<close>

definition endGame :: "game \<Rightarrow> game" where
  "endGame g =
     (if gameOver (gameState g) then g
      else
        let g1 = g\<lparr> gameState := (gameState g)\<lparr> gameOver := True, running := False \<rparr> \<rparr>;
            g2 = emit ShowGameOverScreen g1
        in emit PauseBackgroundMusic g2)"

subsection \<open>Collision detection (lines 185-198)\<close>

definition overlaps :: "bird \<Rightarrow> throne \<Rightarrow> bool" where
  "overlaps b t \<longleftrightarrow>
     x b < x t + width t \<and> x b + width b > x t \<and> y b < y t + height t \<and> y b + height b > y t"

text \<open>The \<^verbatim>\<open>for ... of\<close> loop over the thrones, left at the first overlap.\<close>

fun checkCollisions_loop :: "throne list \<Rightarrow> game \<Rightarrow> game" where
  "checkCollisions_loop [] g = g"
| "checkCollisions_loop (t # ts) g =
     (if overlaps (bird g) t then endGame g else checkCollisions_loop ts g)"

definition checkCollisions :: "game \<Rightarrow> game" where
  "checkCollisions g = checkCollisions_loop (thrones g) g"

subsection \<open>update (lines 141-180)\<close>

text \<open>
  The body of the \<^verbatim>\<open>for\<close> loop at index \<open>i\<close>. Reading \<^verbatim>\<open>thrones[i]\<close> beyond the end
  of the array gives \<^verbatim>\<open>undefined\<close>, and the assignment to its \<^verbatim>\<open>x\<close> then throws a
  TypeError: that is the result \<open>None\<close>. \<^verbatim>\<open>splice(i, 1)\<close> removes the element at \<open>i\<close>.
\<close>

definition update_body :: "nat \<Rightarrow> game \<Rightarrow> game option" where
  "update_body i g =
     (if i < length (thrones g) then
        let throne = (thrones g ! i)\<lparr> x := x (thrones g ! i) - currentThroneSpeed (gameState g) \<rparr>;
            hit = (\<not> passed throne \<and> x throne + width throne < x (bird g));
            throne' = (if hit then throne\<lparr> passed := True \<rparr> else throne);
            g1 = g\<lparr> thrones := (thrones g)[i := throne'] \<rparr>;
            g2 = (if hit \<and> i mod 2 = 0
                  then g1\<lparr> gameState := (gameState g1)\<lparr> score := score (gameState g1) + 1 \<rparr> \<rparr>
                  else g1)
        in Some (if x throne' + width throne' < 0
                 then g2\<lparr> thrones := take i (thrones g2) @ drop (Suc i) (thrones g2) \<rparr>
                 else g2)
      else None)"

text \<open>
  The loop \<^verbatim>\<open>for (let i = thrones.length - 1; i >= 0; i--)\<close>: the first argument is
  \<open>i + 1\<close>, the number of indices still to visit, so that \<open>0\<close> ends the loop.
\<close>

fun update_loop :: "nat \<Rightarrow> game \<Rightarrow> game option" where
  "update_loop 0 g = Some g"
| "update_loop (Suc i) g = (case update_body i g of None \<Rightarrow> None | Some g' \<Rightarrow> update_loop i g')"

definition update :: "game \<Rightarrow> game option" where
  "update g =
     (if \<not> running (gameState g) \<or> gameOver (gameState g) then Some g
      else
        let g1 = g\<lparr> bird := (bird g)\<lparr> velocity := velocity (bird g) + GRAVITY \<rparr> \<rparr>;
            g2 = g1\<lparr> bird := (bird g1)\<lparr> y := y (bird g1) + velocity (bird g1) \<rparr> \<rparr>;
            g3 = g2\<lparr> gameState := (gameState g2)\<lparr> currentThroneSpeed :=
                     INITIAL_THRONE_SPEED + real (score (gameState g2)) * SPEED_INCREASE_RATE \<rparr> \<rparr>
        in case update_loop (length (thrones g3)) g3 of
             None \<Rightarrow> None
           | Some g4 \<Rightarrow>
               let g5 = checkCollisions g4;
                   groundY = CANVAS_HEIGHT - 120;
                   ceilingY = 120
               in Some (if y (bird g5) + height (bird g5) \<ge> groundY \<or> y (bird g5) \<le> ceilingY
                        then endGame g5 else g5))"

subsection \<open>jump (lines 280-310)\<close>

definition jump :: "game \<Rightarrow> game" where
  "jump g =
     (let g1 = (if \<not> musicStarted (gameState g)
                then (emit PlayBackgroundMusic g)\<lparr> gameState :=
                       (gameState g)\<lparr> musicStarted := True \<rparr> \<rparr>
                else g)
      in if \<not> running (gameState g1) then setup_game g1
         else if gameOver (gameState g1) then setup_game g1
         else emit PlayJumpSound (g1\<lparr> bird := (bird g1)\<lparr> velocity := JUMP_STRENGTH \<rparr> \<rparr>))"

subsection \<open>The browser's event loop\<close>

text \<open>
  The engine is driven by three callbacks, which the browser runs one at a time:
  \<^verbatim>\<open>gameLoop\<close> (lines 339-343) calls \<^verbatim>\<open>update\<close> once per animation frame, the key and click
  listeners (lines 326-334) call \<^verbatim>\<open>jump\<close>, and an expiring timer (armed at lines 86 and 135)
  calls \<^verbatim>\<open>spawnThrone\<close>, which draws one random number. A session is any sequence of these
  events, starting from the module-level initial values. \<^verbatim>\<open>draw\<close> writes to the canvas only
  and is left out.
\<close>

datatype event = Tick | Jump | SpawnTimer real

fun step :: "event \<Rightarrow> game \<Rightarrow> game option" where
  "step Tick g = update g"
| "step Jump g = Some (jump g)"
| "step (SpawnTimer r) g = Some (spawnThrone r g)"

fun run :: "event list \<Rightarrow> game \<Rightarrow> game option" where
  "run [] g = Some g"
| "run (e # es) g = (case step e g of None \<Rightarrow> None | Some g' \<Rightarrow> run es g')"

text \<open>\<open>ticks n\<close> is \<open>n\<close> frames in a row with no other event in between.\<close>

fun ticks :: "nat \<Rightarrow> game \<Rightarrow> game option" where
  "ticks 0 g = Some g"
| "ticks (Suc n) g = (case update g of None \<Rightarrow> None | Some g' \<Rightarrow> ticks n g')"

text \<open>The session is Running when \<^verbatim>\<open>running\<close> is set and \<^verbatim>\<open>gameOver\<close> is not.\<close>

definition isRunning :: "game \<Rightarrow> bool" where
  "isRunning g \<longleftrightarrow> running (gameState g) \<and> \<not> gameOver (gameState g)"

definition runningAt :: "nat \<Rightarrow> game \<Rightarrow> bool" where
  "runningAt k g = (case ticks k g of None \<Rightarrow> False | Some g' \<Rightarrow> isRunning g')"

section \<open>What one frame computes\<close>

text \<open>
  The functions of this section are not in the source. They describe the result of
  \<^verbatim>\<open>update\<close> without the loop, and the lemmas below prove that \<^verbatim>\<open>update\<close> computes them.
\<close>

text \<open>One loop iteration on one throne: move it left by \<open>v\<close>, then set its flag.\<close>

definition moved :: "real \<Rightarrow> real \<Rightarrow> throne \<Rightarrow> throne" where
  "moved v bx t = t\<lparr> x := x t - v, passed := passed t \<or> x t - v + width t < bx \<rparr>"

text \<open>The iteration sets the flag of this throne.\<close>

definition scores :: "real \<Rightarrow> real \<Rightarrow> throne \<Rightarrow> bool" where
  "scores v bx t \<longleftrightarrow> \<not> passed t \<and> x t - v + width t < bx"

definition offscreen :: "throne \<Rightarrow> bool" where
  "offscreen t \<longleftrightarrow> x t + width t < 0"

text \<open>The elements at the even indices 0, 2, 4, ...\<close>

fun tops :: "'a list \<Rightarrow> 'a list" where
  "tops [] = []"
| "tops [a] = [a]"
| "tops (a # b # rest) = a # tops rest"

text \<open>The state once the loop has visited the indices below \<open>n\<close> still to come.\<close>

definition loop_result :: "nat \<Rightarrow> game \<Rightarrow> game" where
  "loop_result n g =
     (let v = currentThroneSpeed (gameState g); bx = x (bird g); ts = thrones g
      in g\<lparr> thrones := filter (\<lambda>t. \<not> offscreen t) (map (moved v bx) (take n ts)) @ drop n ts,
            gameState := (gameState g)\<lparr> score := score (gameState g)
                            + length (filter (scores v bx) (tops (take n ts))) \<rparr> \<rparr>)"

text \<open>The speed of a frame that starts in state \<open>g\<close>.\<close>

definition speedOf :: "game \<Rightarrow> real" where
  "speedOf g = INITIAL_THRONE_SPEED + real (score (gameState g)) * SPEED_INCREASE_RATE"

text \<open>The state of a Running frame before the collision checks.\<close>

definition advance :: "game \<Rightarrow> game" where
  "advance g =
     g\<lparr> bird := (bird g)\<lparr> velocity := velocity (bird g) + GRAVITY,
                           y := y (bird g) + (velocity (bird g) + GRAVITY) \<rparr>,
        gameState := (gameState g)\<lparr> currentThroneSpeed := speedOf g,
                        score := score (gameState g)
                          + length (filter (scores (speedOf g) (x (bird g))) (tops (thrones g))) \<rparr>,
        thrones := filter (\<lambda>t. \<not> offscreen t) (map (moved (speedOf g) (x (bird g))) (thrones g)) \<rparr>"

text \<open>The two terminal conditions that \<^verbatim>\<open>update\<close> tests, in the order it tests them.\<close>

definition hitsThrone :: "game \<Rightarrow> bool" where
  "hitsThrone g \<longleftrightarrow> (\<exists>t \<in> set (thrones g). overlaps (bird g) t)"

definition hitsBand :: "game \<Rightarrow> bool" where
  "hitsBand g \<longleftrightarrow> y (bird g) + height (bird g) \<ge> CANVAS_HEIGHT - 120 \<or> y (bird g) \<le> 120"

section \<open>Invariants of a session\<close>

text \<open>
  These predicates are not in the source either. \<open>whole_pairs\<close> says that the array is a
  sequence of pairs as \<^verbatim>\<open>spawnThrone\<close> pushes them: a top throne at \<open>y = 0\<close>, then its bottom
  throne at the same \<open>x\<close> with the same width, beginning \<^verbatim>\<open>THRONE_GAP\<close> below the top throne's
  end. \<open>flags_ok\<close> says that a throne is flagged exactly when its trailing edge is left of
  the bird's \<open>x\<close>.
\<close>

fun pairs_of :: "'a list \<Rightarrow> ('a \<times> 'a) list" where
  "pairs_of (t # b # rest) = (t, b) # pairs_of rest"
| "pairs_of _ = []"

fun whole_pairs :: "throne list \<Rightarrow> bool" where
  "whole_pairs [] = True"
| "whole_pairs [t] = False"
| "whole_pairs (t # b # rest) =
     (y t = 0 \<and> x b = x t \<and> width b = width t \<and> y b = height t + THRONE_GAP
      \<and> height b = CANVAS_HEIGHT - y b \<and> whole_pairs rest)"

definition flags_ok :: "game \<Rightarrow> bool" where
  "flags_ok g \<longleftrightarrow> (\<forall>t \<in> set (thrones g). passed t \<longleftrightarrow> x t + width t < x (bird g))"

definition session_inv :: "game \<Rightarrow> bool" where
  "session_inv g \<longleftrightarrow> x (bird g) = 400 \<and> whole_pairs (thrones g) \<and> flags_ok g"

text \<open>The trailing edge of \<open>t\<close> moves past the bird's \<open>x\<close> in the frame that starts in \<open>g\<close>.\<close>

definition crosses :: "game \<Rightarrow> throne \<Rightarrow> bool" where
  "crosses g t \<longleftrightarrow> \<not> (x t + width t < x (bird g)) \<and> x t - speedOf g + width t < x (bird g)"

text \<open>The live pairs whose top throne is not flagged yet.\<close>

definition livePending :: "game \<Rightarrow> nat" where
  "livePending g = length (filter (\<lambda>(t, b). \<not> passed t) (pairs_of (thrones g)))"

text \<open>
  Every \<^verbatim>\<open>spawnThrone\<close> call that pushes a pair arms one timer, and \<^verbatim>\<open>setup\<close> arms one after
  hiding the game-over screen. So the timers armed since the screen was last hidden, less
  the one of \<^verbatim>\<open>setup\<close>, count the pairs pushed in the current session.
\<close>

fun isTimer :: "effect \<Rightarrow> bool" where
  "isTimer (SetTimeoutSpawn n) = True"
| "isTimer _ = False"

definition timersSinceSetup :: "effect list \<Rightarrow> nat" where
  "timersSinceSetup tr =
     length (filter isTimer (takeWhile (\<lambda>e. e \<noteq> HideGameOverScreen) (rev tr)))"

definition pairsSpawned :: "game \<Rightarrow> nat" where
  "pairsSpawned g = timersSinceSetup (trace g) - 1"

definition count_inv :: "game \<Rightarrow> bool" where
  "count_inv g \<longleftrightarrow>
     score (gameState g) + livePending g = pairsSpawned g
     \<and> (running (gameState g) \<longrightarrow> 1 \<le> timersSinceSetup (trace g))"

section \<open>Example states\<close>

text \<open>A Running session whose bird is about to hit a throne and the ground band.\<close>

definition collisionState :: game where
  "collisionState =
     \<lparr> gameState = \<lparr> running = True, gameOver = False, score = 3,
                     currentThroneSpeed = 12, musicStarted = True \<rparr>,
       bird = \<lparr> x = 400, y = 800, width = 360, height = 203, velocity = 5 \<rparr>,
       thrones = [\<lparr> x = 500, y = 0, width = 360, height = 140, passed = False \<rparr>,
                  \<lparr> x = 500, y = 940, width = 360, height = 140, passed = False \<rparr>],
       trace = [] \<rparr>"

text \<open>A Running session whose first pair is about to leave the field and whose second pair is
  about to be passed by the bird.\<close>

definition exitState :: game where
  "exitState =
     \<lparr> gameState = \<lparr> running = True, gameOver = False, score = 1,
                     currentThroneSpeed = 12, musicStarted = True \<rparr>,
       bird = \<lparr> x = 400, y = 540, width = 360, height = 203, velocity = 0 \<rparr>,
       thrones = [\<lparr> x = - 355, y = 0, width = 360, height = 140, passed = True \<rparr>,
                  \<lparr> x = - 355, y = 940, width = 360, height = 140, passed = True \<rparr>,
                  \<lparr> x = 45, y = 0, width = 360, height = 100, passed = False \<rparr>,
                  \<lparr> x = 45, y = 900, width = 360, height = 180, passed = False \<rparr>],
       trace = [] \<rparr>"

section \<open>Lemmas\<close>

lemmas consts_defs = CANVAS_WIDTH_def CANVAS_HEIGHT_def GRAVITY_def JUMP_STRENGTH_def
  INITIAL_THRONE_SPEED_def INITIAL_SPAWN_INTERVAL_def THRONE_GAP_def THRONE_WIDTH_def
  SPEED_INCREASE_RATE_def

subsection \<open>endGame and the collision loop\<close>

lemma endGame_gameOver: "gameOver (gameState g) \<Longrightarrow> endGame g = g"
  by (simp add: endGame_def)

lemma endGame_twice: "endGame (endGame g) = endGame g"
  by (simp add: endGame_def emit_def Let_def)

lemma endGame_bird [simp]: "bird (endGame g) = bird g"
  by (simp add: endGame_def emit_def Let_def)

lemma endGame_thrones [simp]: "thrones (endGame g) = thrones g"
  by (simp add: endGame_def emit_def Let_def)

lemma endGame_score [simp]: "score (gameState (endGame g)) = score (gameState g)"
  by (simp add: endGame_def emit_def Let_def)

lemma endGame_speed [simp]:
  "currentThroneSpeed (gameState (endGame g)) = currentThroneSpeed (gameState g)"
  by (simp add: endGame_def emit_def Let_def)

lemma endGame_flags [simp]:
  "gameOver (gameState (endGame g))" "\<not> running (gameState (endGame g)) \<or> gameOver (gameState g)"
  by (simp_all add: endGame_def emit_def Let_def)

lemma endGame_trace:
  "trace (endGame g) =
     (if gameOver (gameState g) then trace g
      else trace g @ [ShowGameOverScreen, PauseBackgroundMusic])"
  by (simp add: endGame_def emit_def Let_def)

lemma checkCollisions_loop_eq:
  "checkCollisions_loop ts g = (if \<exists>t \<in> set ts. overlaps (bird g) t then endGame g else g)"
  by (induction ts) auto

lemma checkCollisions_eq: "checkCollisions g = (if hitsThrone g then endGame g else g)"
  by (simp add: checkCollisions_def checkCollisions_loop_eq hitsThrone_def)

subsection \<open>The throne loop\<close>

lemma tops_snoc: "tops (xs @ [a]) = tops xs @ (if even (length xs) then [a] else [])"
  by (induction xs rule: tops.induct) auto

lemma update_body_eq:
  assumes "i < length (thrones g)"
  shows "update_body i g = Some (g\<lparr>
      thrones := take i (thrones g)
        @ (if offscreen (moved (currentThroneSpeed (gameState g)) (x (bird g)) (thrones g ! i))
           then []
           else [moved (currentThroneSpeed (gameState g)) (x (bird g)) (thrones g ! i)])
        @ drop (Suc i) (thrones g),
      gameState := (gameState g)\<lparr> score := score (gameState g)
        + (if scores (currentThroneSpeed (gameState g)) (x (bird g)) (thrones g ! i) \<and> even i
           then 1 else 0) \<rparr> \<rparr>)"
  using assms
  apply (simp add: update_body_def Let_def moved_def scores_def offscreen_def)
  apply (auto simp add: upd_conv_take_nth_drop take_Suc_conv_app_nth)
  done

lemma update_loop_eq:
  "n \<le> length (thrones g) \<Longrightarrow> update_loop n g = Some (loop_result n g)"
proof (induction n arbitrary: g)
  case 0
  then show ?case by (simp add: loop_result_def)
next
  case (Suc i)
  then have lt: "i < length (thrones g)" by simp
  let ?v = "currentThroneSpeed (gameState g)"
  let ?bx = "x (bird g)"
  let ?m = "moved ?v ?bx (thrones g ! i)"
  define g' where "g' = g\<lparr>
      thrones := take i (thrones g) @ (if offscreen ?m then [] else [?m]) @ drop (Suc i) (thrones g),
      gameState := (gameState g)\<lparr> score := score (gameState g)
        + (if scores ?v ?bx (thrones g ! i) \<and> even i then 1 else 0) \<rparr> \<rparr>"
  have b: "update_body i g = Some g'"
    using update_body_eq [OF lt] unfolding g'_def .
  have th: "thrones g' =
      take i (thrones g) @ (if offscreen ?m then [] else [?m]) @ drop (Suc i) (thrones g)"
    by (simp add: g'_def)
  have gs: "gameState g' = (gameState g)\<lparr> score := score (gameState g)
        + (if scores ?v ?bx (thrones g ! i) \<and> even i then 1 else 0) \<rparr>"
    by (simp add: g'_def)
  have bd: "bird g' = bird g" and tr: "trace g' = trace g"
    by (simp_all add: g'_def)
  have len: "i \<le> length (thrones g')" using lt th by simp
  have tk: "take i (thrones g') = take i (thrones g)" using lt th by simp
  have dr: "drop i (thrones g') = (if offscreen ?m then [] else [?m]) @ drop (Suc i) (thrones g)"
    using lt th by simp
  have "update_loop (Suc i) g = update_loop i g'" using b by simp
  also have "\<dots> = Some (loop_result i g')" using Suc.IH [OF len] .
  also have "loop_result i g' = loop_result (Suc i) g"
    using lt
    by (simp add: loop_result_def Let_def tk dr gs bd tr take_Suc_conv_app_nth tops_snoc)
  finally show ?case .
qed

subsection \<open>One frame\<close>

lemma update_not_running: "\<not> isRunning g \<Longrightarrow> update g = Some g"
  by (auto simp add: update_def isRunning_def)

lemma update_running:
  assumes "isRunning g"
  shows "update g =
    Some (let a = advance g; c = (if hitsThrone a then endGame a else a)
          in if hitsBand a then endGame c else c)"
proof -
  define g3 where "g3 = g\<lparr> bird := (bird g)\<lparr> velocity := velocity (bird g) + GRAVITY,
                               y := y (bird g) + (velocity (bird g) + GRAVITY) \<rparr>,
            gameState := (gameState g)\<lparr> currentThroneSpeed := speedOf g \<rparr> \<rparr>"
  have l: "update_loop (length (thrones g3)) g3 = Some (loop_result (length (thrones g3)) g3)"
    by (rule update_loop_eq) simp
  have a: "loop_result (length (thrones g3)) g3 = advance g"
    by (simp add: loop_result_def advance_def g3_def Let_def)
  have l': "update_loop (length (thrones g)) g3 = Some (advance g)"
    using l a by (simp add: g3_def)
  have r: "running (gameState g)" "\<not> gameOver (gameState g)"
    using assms by (simp_all add: isRunning_def)
  show ?thesis
    using r l'
    by (simp add: update_def g3_def speedOf_def Let_def checkCollisions_eq hitsBand_def)
qed

lemma update_total: "\<exists>g'. update g = Some g'"
  by (cases "isRunning g") (simp_all add: update_running update_not_running)

lemma advance_bird:
  "velocity (bird (advance g)) = velocity (bird g) + GRAVITY"
  "y (bird (advance g)) = y (bird g) + (velocity (bird g) + GRAVITY)"
  "x (bird (advance g)) = x (bird g)"
  "width (bird (advance g)) = width (bird g)"
  "height (bird (advance g)) = height (bird g)"
  by (simp_all add: advance_def)

lemma advance_thrones:
  "thrones (advance g) = filter (\<lambda>t. \<not> offscreen t) (map (moved (speedOf g) (x (bird g))) (thrones g))"
  by (simp add: advance_def)

lemma advance_gameState:
  "gameState (advance g) = (gameState g)\<lparr> currentThroneSpeed := speedOf g,
      score := score (gameState g)
        + length (filter (scores (speedOf g) (x (bird g))) (tops (thrones g))) \<rparr>"
  by (simp add: advance_def)

lemma advance_trace: "trace (advance g) = trace g"
  by (simp add: advance_def)

text \<open>The parts of a Running frame's result that the collision checks do not touch.\<close>

lemma update_running_parts:
  assumes "isRunning g"
  obtains g' where "update g = Some g'"
    and "bird g' = bird (advance g)"
    and "thrones g' = thrones (advance g)"
    and "score (gameState g') = score (gameState (advance g))"
    and "currentThroneSpeed (gameState g') = speedOf g"
    and "gameOver (gameState g') \<longleftrightarrow> hitsThrone (advance g) \<or> hitsBand (advance g)"
    and "running (gameState g') \<longleftrightarrow> \<not> (hitsThrone (advance g) \<or> hitsBand (advance g))"
    and "trace g' = trace g @ (if hitsThrone (advance g) \<or> hitsBand (advance g)
                               then [ShowGameOverScreen, PauseBackgroundMusic] else [])"
proof -
  have r: "running (gameState (advance g))" "\<not> gameOver (gameState (advance g))"
    using assms by (simp_all add: isRunning_def advance_gameState)
  let ?g' = "let a = advance g; c = (if hitsThrone a then endGame a else a)
          in if hitsBand a then endGame c else c"
  show thesis
  proof (rule that [of ?g'])
    show "update g = Some ?g'" by (rule update_running [OF assms])
  qed (use r in \<open>auto simp add: Let_def endGame_trace advance_gameState advance_trace
        endGame_def emit_def\<close>)
qed

lemma map_x_moved:
  "map x (filter (\<lambda>t. \<not> offscreen t) (map (moved v bx) ts))
   = map (\<lambda>t. x t - v) (filter (\<lambda>t. \<not> (x t - v + width t < 0)) ts)"
  by (induction ts) (simp_all add: moved_def offscreen_def)


subsection \<open>Frames in a row\<close>

lemma runningAt_0: "runningAt 0 g \<longleftrightarrow> isRunning g"
  by (simp add: runningAt_def)

lemma runningAt_Suc: "update g = Some g1 \<Longrightarrow> runningAt (Suc k) g = runningAt k g1"
  by (simp add: runningAt_def)

lemma ticks_fall:
  "\<forall>k<n. runningAt k g \<Longrightarrow>
   \<exists>g'. ticks n g = Some g'
     \<and> velocity (bird g') = velocity (bird g) + real n * GRAVITY
     \<and> y (bird g') = y (bird g) + real n * velocity (bird g)
                       + GRAVITY * (real n * (real n + 1) / 2)
     \<and> x (bird g') = x (bird g) \<and> width (bird g') = width (bird g) \<and> height (bird g') = height (bird g)"
proof (induction n arbitrary: g)
  case 0
  then show ?case by simp
next
  case (Suc n)
  have r: "isRunning g" using Suc.prems runningAt_0 by blast
  from update_running_parts [OF r] obtain g1 where u: "update g = Some g1"
    and b: "bird g1 = bird (advance g)" by blast
  have "\<forall>k<n. runningAt k g1"
    using Suc.prems runningAt_Suc [OF u] by auto
  from Suc.IH [OF this] obtain g' where t: "ticks n g1 = Some g'"
    and v: "velocity (bird g') = velocity (bird g1) + real n * GRAVITY"
    and p: "y (bird g') = y (bird g1) + real n * velocity (bird g1)
                       + GRAVITY * (real n * (real n + 1) / 2)"
    and c: "x (bird g') = x (bird g1)" "width (bird g') = width (bird g1)"
           "height (bird g') = height (bird g1)"
    by blast
  have "ticks (Suc n) g = Some g'" using u t by simp
  moreover have "velocity (bird g') = velocity (bird g) + real (Suc n) * GRAVITY"
    using v by (simp add: b advance_bird algebra_simps)
  moreover have "y (bird g') = y (bird g) + real (Suc n) * velocity (bird g)
                       + GRAVITY * (real (Suc n) * (real (Suc n) + 1) / 2)"
    using p by (simp add: b advance_bird algebra_simps)
  moreover have "x (bird g') = x (bird g)" "width (bird g') = width (bird g)"
    "height (bird g') = height (bird g)"
    using c by (simp_all add: b advance_bird)
  ultimately show ?case by blast
qed

lemma sum_velocities: "(\<Sum>k = 1..n. real k * G) = G * (real n * (real n + 1) / 2)"
  by (induction n) (simp_all add: algebra_simps)


lemma runningAt_mono: "runningAt (Suc k) g \<Longrightarrow> runningAt k g"
proof (induction k arbitrary: g)
  case 0
  show ?case
  proof (rule ccontr)
    assume "\<not> runningAt 0 g"
    then have n: "\<not> isRunning g" by (simp add: runningAt_0)
    then have "update g = Some g" by (rule update_not_running)
    then have "runningAt (Suc 0) g = runningAt 0 g" by (rule runningAt_Suc)
    with 0 n show False by (simp add: runningAt_0)
  qed
next
  case (Suc k)
  obtain g1 where u: "update g = Some g1" using update_total by blast
  have "runningAt (Suc k) g1" using Suc.prems runningAt_Suc [OF u] by simp
  then have "runningAt k g1" by (rule Suc.IH)
  then show ?case using runningAt_Suc [OF u] by simp
qed

lemma runningAt_below: "runningAt n g \<Longrightarrow> k \<le> n \<Longrightarrow> runningAt k g"
  by (induction n) (auto simp add: le_Suc_eq dest: runningAt_mono)

subsection \<open>Pairs\<close>

lemma whole_pairs_append:
  "whole_pairs ts \<Longrightarrow> whole_pairs us \<Longrightarrow> whole_pairs (ts @ us)"
  by (induction ts rule: whole_pairs.induct) auto

lemma whole_pairs_moved:
  "whole_pairs ts \<Longrightarrow> whole_pairs (filter (\<lambda>t. \<not> offscreen t) (map (moved v bx) ts))"
  by (induction ts rule: whole_pairs.induct) (auto simp add: moved_def offscreen_def)

lemma pairs_moved:
  "whole_pairs ts \<Longrightarrow>
   filter (\<lambda>t. \<not> offscreen t) (map (moved v bx) ts)
   = concat (map (\<lambda>(t, b). [moved v bx t, moved v bx b])
       (filter (\<lambda>(t, b). \<not> (x t - v + width t < 0)) (pairs_of ts)))"
  by (induction ts rule: whole_pairs.induct) (auto simp add: moved_def offscreen_def)

lemma whole_pairs_nth:
  "whole_pairs ts \<Longrightarrow> even (length ts) \<and>
     (\<forall>k. 2 * k + 1 < length ts \<longrightarrow>
        y (ts ! (2 * k)) = 0 \<and> x (ts ! (2 * k + 1)) = x (ts ! (2 * k))
        \<and> width (ts ! (2 * k + 1)) = width (ts ! (2 * k))
        \<and> y (ts ! (2 * k + 1)) = height (ts ! (2 * k)) + THRONE_GAP)"
proof (induction ts rule: whole_pairs.induct)
  case 1
  then show ?case by simp
next
  case (2 t)
  then show ?case by simp
next
  case (3 t b rest)
  then have ih: "even (length rest)" "\<And>k. 2 * k + 1 < length rest \<Longrightarrow>
        y (rest ! (2 * k)) = 0 \<and> x (rest ! (2 * k + 1)) = x (rest ! (2 * k))
        \<and> width (rest ! (2 * k + 1)) = width (rest ! (2 * k))
        \<and> y (rest ! (2 * k + 1)) = height (rest ! (2 * k)) + THRONE_GAP"
    by simp_all
  have hd: "y t = 0" "x b = x t" "width b = width t" "y b = height t + THRONE_GAP"
    using 3 by simp_all
  show ?case
  proof (intro conjI allI impI)
    show "even (length (t # b # rest))" using ih(1) by simp
  next
    fix k assume k: "2 * k + 1 < length (t # b # rest)"
    show "y ((t # b # rest) ! (2 * k)) = 0"
      using k hd ih(2) [of "k - 1"] by (cases k) simp_all
    show "x ((t # b # rest) ! (2 * k + 1)) = x ((t # b # rest) ! (2 * k))"
      using k hd ih(2) [of "k - 1"] by (cases k) simp_all
    show "width ((t # b # rest) ! (2 * k + 1)) = width ((t # b # rest) ! (2 * k))"
      using k hd ih(2) [of "k - 1"] by (cases k) simp_all
    show "y ((t # b # rest) ! (2 * k + 1)) = height ((t # b # rest) ! (2 * k)) + THRONE_GAP"
      using k hd ih(2) [of "k - 1"] by (cases k) simp_all
  qed
qed

lemma scores_tops:
  assumes "whole_pairs ts" "\<forall>t \<in> set ts. passed t \<longleftrightarrow> x t + width t < bx"
  shows "length (filter (scores v bx) (tops ts))
       = length (filter (\<lambda>(t, b). (\<not> (x t + width t < bx) \<and> x t - v + width t < bx)
                                \<and> (\<not> (x b + width b < bx) \<and> x b - v + width b < bx))
                   (pairs_of ts))"
  using assms
  by (induction ts rule: whole_pairs.induct) (auto simp add: scores_def)


lemma timersSinceSetup_append:
  "timersSinceSetup (tr @ es) =
     (if HideGameOverScreen \<in> set es then timersSinceSetup es
      else timersSinceSetup tr + length (filter isTimer es))"
proof (cases "HideGameOverScreen \<in> set es")
  case True
  then have "takeWhile (\<lambda>e. e \<noteq> HideGameOverScreen) (rev es @ rev tr)
      = takeWhile (\<lambda>e. e \<noteq> HideGameOverScreen) (rev es)"
    by (intro takeWhile_append1 [of HideGameOverScreen]) simp_all
  then show ?thesis using True by (simp add: timersSinceSetup_def)
next
  case False
  then have "takeWhile (\<lambda>e. e \<noteq> HideGameOverScreen) (rev es @ rev tr)
      = rev es @ takeWhile (\<lambda>e. e \<noteq> HideGameOverScreen) (rev tr)"
    by (intro takeWhile_append2) auto
  then show ?thesis
    using False by (simp add: timersSinceSetup_def rev_filter [symmetric])
qed

lemma timersSinceSetup_setup:
  "timersSinceSetup (tr @ (if m then [HideGameOverScreen, PlayBackgroundMusic]
        else [HideGameOverScreen]) @ [SetTimeoutSpawn n]) = 1"
  by (simp add: timersSinceSetup_def)

lemma speedOf_pos: "0 \<le> speedOf g"
  by (simp add: speedOf_def consts_defs)

lemma pairs_of_append:
  "even (length ts) \<Longrightarrow> pairs_of (ts @ us) = pairs_of ts @ pairs_of us"
  by (induction ts rule: pairs_of.induct) auto

lemma whole_pairs_even: "whole_pairs ts \<Longrightarrow> even (length ts)"
  by (induction ts rule: whole_pairs.induct) auto

lemma pending_moved:
  assumes "whole_pairs ts" "\<forall>t \<in> set ts. passed t \<longleftrightarrow> x t + width t < bx" "0 \<le> bx" "0 \<le> v"
  shows "length (filter (scores v bx) (tops ts))
       + length (filter (\<lambda>(t, b). \<not> passed t)
           (pairs_of (filter (\<lambda>t. \<not> offscreen t) (map (moved v bx) ts))))
       = length (filter (\<lambda>(t, b). \<not> passed t) (pairs_of ts))"
  using assms
  by (induction ts rule: whole_pairs.induct) (auto simp add: scores_def moved_def offscreen_def)

lemma flags_moved:
  assumes "\<forall>t \<in> set ts. passed t \<longleftrightarrow> x t + width t < bx" "0 \<le> v"
  shows "\<forall>t \<in> set (filter (\<lambda>t. \<not> offscreen t) (map (moved v bx) ts)).
           passed t \<longleftrightarrow> x t + width t < bx"
  using assms by (auto simp add: moved_def)

subsection \<open>The fields after setup, jump and spawnThrone\<close>

lemma setup_game_fields:
  "thrones (setup_game g) = []"
  "bird (setup_game g) = (bird g)\<lparr> y := CANVAS_HEIGHT / 2, velocity := 0 \<rparr>"
  "gameState (setup_game g) = (gameState g)\<lparr> running := True, gameOver := False, score := 0,
      currentThroneSpeed := INITIAL_THRONE_SPEED \<rparr>"
  "trace (setup_game g) = trace g
     @ (if musicStarted (gameState g) then [HideGameOverScreen, PlayBackgroundMusic]
        else [HideGameOverScreen])
     @ [SetTimeoutSpawn 2000]"
  by (simp_all add: setup_game_def emit_def Let_def)

lemma jump_not_running:
  assumes "\<not> isRunning g"
  shows "jump g = setup_game (if musicStarted (gameState g) then g
             else (emit PlayBackgroundMusic g)\<lparr> gameState :=
                       (gameState g)\<lparr> musicStarted := True \<rparr> \<rparr>)"
  using assms by (auto simp add: jump_def isRunning_def emit_def Let_def)

lemma jump_running:
  assumes "isRunning g"
  shows "thrones (jump g) = thrones g"
    "bird (jump g) = (bird g)\<lparr> velocity := JUMP_STRENGTH \<rparr>"
    "gameState (jump g) = (gameState g)\<lparr> musicStarted := True \<rparr>"
    "trace (jump g) = trace g
       @ (if musicStarted (gameState g) then [] else [PlayBackgroundMusic]) @ [PlayJumpSound]"
  using assms by (simp_all add: jump_def isRunning_def emit_def Let_def)

lemma spawnThrone_running:
  assumes "isRunning g"
  shows "thrones (spawnThrone r g) = thrones g @
      [\<lparr> x = CANVAS_WIDTH, y = 0, width = THRONE_WIDTH, height = 400 - 520 * r,
         passed = False \<rparr>,
       \<lparr> x = CANVAS_WIDTH, y = 400 - 520 * r + THRONE_GAP, width = THRONE_WIDTH,
         height = CANVAS_HEIGHT - (400 - 520 * r + THRONE_GAP), passed = False \<rparr>]"
    "bird (spawnThrone r g) = bird g"
    "gameState (spawnThrone r g) = gameState g"
    "trace (spawnThrone r g) = trace g @ [SetTimeoutSpawn (getSpawnInterval g)]"
  using assms
  by (simp_all add: spawnThrone_def isRunning_def emit_def Let_def getSpawnInterval_def
      CANVAS_HEIGHT_def THRONE_GAP_def)

lemma spawnThrone_not_running: "\<not> isRunning g \<Longrightarrow> spawnThrone r g = g"
  by (auto simp add: spawnThrone_def isRunning_def)

subsection \<open>The operations keep the invariants\<close>

lemma session_inv_initial: "session_inv initial" "count_inv initial"
  by (simp_all add: session_inv_def count_inv_def flags_ok_def initial_def livePending_def
      pairsSpawned_def timersSinceSetup_def)

lemma session_inv_setup: "x (bird g) = 400 \<Longrightarrow> session_inv (setup_game g)"
  by (simp add: session_inv_def flags_ok_def setup_game_fields)

lemma count_inv_setup: "count_inv (setup_game g)"
  by (simp add: count_inv_def livePending_def pairsSpawned_def setup_game_fields
      timersSinceSetup_setup)

lemma session_inv_jump:
  assumes "session_inv g"
  shows "session_inv (jump g)"
proof (cases "isRunning g")
  case True
  then show ?thesis
    using assms by (simp add: session_inv_def flags_ok_def jump_running)
next
  case False
  have "x (bird g) = 400" using assms by (simp add: session_inv_def)
  then show ?thesis
    unfolding jump_not_running [OF False]
    by (intro session_inv_setup) (simp add: emit_def)
qed

lemma count_inv_jump:
  assumes "count_inv g"
  shows "count_inv (jump g)"
proof (cases "isRunning g")
  case True
  then show ?thesis
    using assms
    by (simp add: count_inv_def livePending_def pairsSpawned_def jump_running
        timersSinceSetup_append)
next
  case False
  show ?thesis
    unfolding jump_not_running [OF False] by (rule count_inv_setup)
qed

lemma session_inv_spawnThrone:
  assumes "session_inv g"
  shows "session_inv (spawnThrone r g)"
proof (cases "isRunning g")
  case True
  have "whole_pairs (thrones g @
      [\<lparr> x = CANVAS_WIDTH, y = 0, width = THRONE_WIDTH, height = 400 - 520 * r,
         passed = False \<rparr>,
       \<lparr> x = CANVAS_WIDTH, y = 400 - 520 * r + THRONE_GAP, width = THRONE_WIDTH,
         height = CANVAS_HEIGHT - (400 - 520 * r + THRONE_GAP), passed = False \<rparr>])"
    using assms by (intro whole_pairs_append) (simp_all add: session_inv_def)
  then show ?thesis
    using assms
    by (simp add: session_inv_def flags_ok_def spawnThrone_running [OF True]
        CANVAS_WIDTH_def THRONE_WIDTH_def)
next
  case False
  then show ?thesis using assms by (simp add: spawnThrone_not_running)
qed

lemma count_inv_spawnThrone:
  assumes "session_inv g" "count_inv g"
  shows "count_inv (spawnThrone r g)"
proof (cases "isRunning g")
  case True
  have e: "even (length (thrones g))"
    using assms(1) by (simp add: session_inv_def whole_pairs_even)
  have r: "running (gameState g)" using True by (simp add: isRunning_def)
  show ?thesis
    using assms(2) r
    by (simp add: count_inv_def livePending_def pairsSpawned_def spawnThrone_running [OF True]
        timersSinceSetup_append pairs_of_append [OF e])
next
  case False
  then show ?thesis using assms by (simp add: spawnThrone_not_running)
qed

lemma session_inv_advance: "session_inv g \<Longrightarrow> session_inv (advance g)"
  using flags_moved [of "thrones g" "x (bird g)" "speedOf g"]
  by (simp add: session_inv_def flags_ok_def advance_bird advance_thrones whole_pairs_moved
      speedOf_pos)

lemma pending_advance:
  "session_inv g \<Longrightarrow> score (gameState (advance g)) + livePending (advance g)
     = score (gameState g) + livePending g"
  using pending_moved [of "thrones g" "x (bird g)" "speedOf g"]
  by (simp add: session_inv_def flags_ok_def advance_gameState advance_thrones livePending_def
      speedOf_pos)

lemma session_inv_update:
  assumes "session_inv g" "update g = Some g'"
  shows "session_inv g'"
proof (cases "isRunning g")
  case True
  from update_running_parts [OF True] obtain h where "update g = Some h"
    and "bird h = bird (advance g)" and "thrones h = thrones (advance g)"
    by blast
  with assms(2) have "bird g' = bird (advance g)" "thrones g' = thrones (advance g)"
    by simp_all
  then show ?thesis
    using session_inv_advance [OF assms(1)] by (simp add: session_inv_def flags_ok_def)
next
  case False
  then show ?thesis using assms update_not_running by simp
qed

lemma count_inv_update:
  assumes "session_inv g" "count_inv g" "update g = Some g'"
  shows "count_inv g'"
proof (cases "isRunning g")
  case True
  from update_running_parts [OF True] obtain h where "update g = Some h"
    and "thrones h = thrones (advance g)"
    and "score (gameState h) = score (gameState (advance g))"
    and "running (gameState h) \<longleftrightarrow> \<not> (hitsThrone (advance g) \<or> hitsBand (advance g))"
    and "trace h = trace g @ (if hitsThrone (advance g) \<or> hitsBand (advance g)
                               then [ShowGameOverScreen, PauseBackgroundMusic] else [])"
    by blast
  with assms(3) have th: "thrones g' = thrones (advance g)"
    and sc: "score (gameState g') = score (gameState (advance g))"
    and tr: "trace g' = trace g @ (if hitsThrone (advance g) \<or> hitsBand (advance g)
                               then [ShowGameOverScreen, PauseBackgroundMusic] else [])"
    by simp_all
  have t: "timersSinceSetup (trace g') = timersSinceSetup (trace g)"
    by (simp add: tr timersSinceSetup_append)
  have p: "livePending g' = livePending (advance g)"
    by (simp add: livePending_def th)
  have r: "running (gameState g)" using True by (simp add: isRunning_def)
  show ?thesis
    using assms(2) pending_advance [OF assms(1)] r
    by (simp add: count_inv_def pairsSpawned_def t p sc)
next
  case False
  then show ?thesis using assms update_not_running by simp
qed

lemma step_inv:
  assumes "session_inv g \<and> count_inv g" "step e g = Some g'"
  shows "session_inv g' \<and> count_inv g'"
  using assms
  by (cases e) (auto simp add: session_inv_update count_inv_update session_inv_jump
      count_inv_jump session_inv_spawnThrone count_inv_spawnThrone)

lemma run_inv:
  "session_inv g \<and> count_inv g \<Longrightarrow> run evs g = Some g' \<Longrightarrow> session_inv g' \<and> count_inv g'"
proof (induction evs arbitrary: g)
  case Nil
  then show ?case by simp
next
  case (Cons e evs)
  then obtain g1 where s: "step e g = Some g1" and r: "run evs g1 = Some g'"
    by (auto split: option.splits)
  from step_inv [OF Cons.prems(1) s] have "session_inv g1 \<and> count_inv g1" .
  from Cons.IH [OF this r] show ?case .
qed

lemma step_total: "\<exists>g'. step e g = Some g'"
  by (cases e) (simp_all add: update_total)

lemma run_total: "\<exists>g'. run evs g = Some g'"
proof (induction evs arbitrary: g)
  case Nil
  then show ?case by simp
next
  case (Cons e evs)
  obtain g1 where s: "step e g = Some g1" using step_total by blast
  from Cons.IH [of g1] s show ?case by simp
qed

lemma whole_pairs_jump: "whole_pairs (thrones g) \<Longrightarrow> whole_pairs (thrones (jump g))"
  by (cases "isRunning g") (simp_all add: jump_running jump_not_running setup_game_fields)

lemma whole_pairs_spawnThrone:
  "whole_pairs (thrones g) \<Longrightarrow> whole_pairs (thrones (spawnThrone r g))"
  by (cases "isRunning g")
    (simp_all add: spawnThrone_running spawnThrone_not_running whole_pairs_append)

lemma whole_pairs_update:
  assumes "whole_pairs (thrones g)" "update g = Some g'"
  shows "whole_pairs (thrones g')"
proof (cases "isRunning g")
  case True
  from update_running_parts [OF True] obtain h where "update g = Some h"
    and "thrones h = thrones (advance g)"
    by blast
  with assms(2) have "thrones g' = thrones (advance g)" by simp
  then show ?thesis
    using assms(1) by (simp add: advance_thrones whole_pairs_moved)
next
  case False
  then show ?thesis using assms update_not_running by simp
qed

section \<open>The claims\<close>

text \<open>
  C1. \<^verbatim>\<open>spawnThrone\<close> computes \<open>maxGapY = 1080 - 800 - 400 = -120\<close>, which is below
  \<open>minGapY = 400\<close>, so for a draw \<open>r\<close> in \<open>[0, 1)\<close> the gap starts at \<open>400 - 520 r\<close>: never more
  than 400 below the field top, and ending less than 400 above the field bottom. The claimed
  clearances do not hold; at \<open>r = 1/2\<close> the gap starts at 140 and ends at 940.
\<close>

theorem spawnThrone_gap_outside_margins:
  assumes "isRunning g" "0 \<le> r" "r < 1"
  shows "\<exists>top bottom. thrones (spawnThrone r g) = thrones g @ [top, bottom]
     \<and> y top = 0 \<and> height top = 400 - 520 * r \<and> y bottom = height top + THRONE_GAP
     \<and> - 120 < height top \<and> height top \<le> 400
     \<and> CANVAS_HEIGHT - 400 < y bottom"
  using assms
  by (simp add: spawnThrone_def isRunning_def emit_def Let_def consts_defs)

theorem spawnThrone_gap_outside_margins_witness:
  "isRunning (jump initial)
   \<and> (\<exists>top bottom. thrones (spawnThrone (1/2) (jump initial)) = [top, bottom]
         \<and> height top = 140 \<and> y bottom = 940
         \<and> height top < 400 \<and> CANVAS_HEIGHT - 400 < y bottom)"
proof -
  have r: "isRunning (jump initial)"
    by (simp add: isRunning_def jump_def setup_game_def initial_def emit_def Let_def)
  have t: "thrones (jump initial) = []"
    by (simp add: jump_def setup_game_def initial_def emit_def Let_def)
  from spawnThrone_gap_outside_margins [OF r, of "1/2"] obtain top bottom
    where s: "thrones (spawnThrone (1/2) (jump initial)) = [top, bottom]"
      and h: "height top = 140" and b: "y bottom = 940"
      and c: "CANVAS_HEIGHT - 400 < y bottom"
    by (auto simp add: t THRONE_GAP_def)
  have "\<exists>top bottom. thrones (spawnThrone (1/2) (jump initial)) = [top, bottom]
         \<and> height top = 140 \<and> y bottom = 940
         \<and> height top < 400 \<and> CANVAS_HEIGHT - 400 < y bottom"
    using s h b c by simp
  then show ?thesis using r by simp
qed

text \<open>
  C2. Every pair adds exactly one point, in the frame in which its trailing edge moves past
  the bird's \<open>x\<close>. The code adds one point for every unflagged throne at an even index whose
  trailing edge is left of the bird after the move. In every state that a session can reach
  the array consists of whole pairs and a throne is flagged exactly when its trailing edge is
  left of the bird (\<open>session_inv\<close>). In such a state a Running frame adds as many points as
  there are pairs whose two trailing edges cross the bird's \<open>x\<close> in that frame; a pair that
  has crossed is flagged or removed and cannot cross again, since thrones only move left.
  Over the session: the score plus the number of live pairs not yet passed is the number of
  pairs spawned since the session started.
\<close>

theorem one_increment_per_pair:
  "(run evs initial = Some g \<longrightarrow>
      session_inv g \<and> score (gameState g) + livePending g = pairsSpawned g)
   \<and> (isRunning h \<longrightarrow>
        (\<exists>h'. update h = Some h'
           \<and> score (gameState h') = score (gameState h)
               + length (filter (scores (speedOf h) (x (bird h))) (tops (thrones h)))
           \<and> (session_inv h \<longrightarrow>
                session_inv h'
                \<and> score (gameState h') = score (gameState h)
                    + length (filter (\<lambda>(t, b). crosses h t \<and> crosses h b)
                        (pairs_of (thrones h)))
                \<and> score (gameState h') + livePending h'
                    = score (gameState h) + livePending h)))
   \<and> 0 < speedOf h"
proof -
  have reach: "session_inv g \<and> score (gameState g) + livePending g = pairsSpawned g"
    if r: "run evs initial = Some g"
  proof -
    have "session_inv initial \<and> count_inv initial" by (simp add: session_inv_initial)
    from run_inv [OF this r] show ?thesis by (simp add: count_inv_def)
  qed
  have tick: "\<exists>h'. update h = Some h'
           \<and> score (gameState h') = score (gameState h)
               + length (filter (scores (speedOf h) (x (bird h))) (tops (thrones h)))
           \<and> (session_inv h \<longrightarrow>
                session_inv h'
                \<and> score (gameState h') = score (gameState h)
                    + length (filter (\<lambda>(t, b). crosses h t \<and> crosses h b)
                        (pairs_of (thrones h)))
                \<and> score (gameState h') + livePending h'
                    = score (gameState h) + livePending h)"
    if r: "isRunning h"
  proof -
    from update_running_parts [OF r] obtain h' where u: "update h = Some h'"
      and th: "thrones h' = thrones (advance h)"
      and sc: "score (gameState h') = score (gameState (advance h))"
      by blast
    have 1: "score (gameState h') = score (gameState h)
               + length (filter (scores (speedOf h) (x (bird h))) (tops (thrones h)))"
      by (simp add: sc advance_gameState)
    have 2: "session_inv h'
                \<and> score (gameState h') = score (gameState h)
                    + length (filter (\<lambda>(t, b). crosses h t \<and> crosses h b)
                        (pairs_of (thrones h)))
                \<and> score (gameState h') + livePending h'
                    = score (gameState h) + livePending h"
      if i: "session_inv h"
    proof -
      have w: "whole_pairs (thrones h)"
        and f: "\<forall>t \<in> set (thrones h). passed t \<longleftrightarrow> x t + width t < x (bird h)"
        using i by (simp_all add: session_inv_def flags_ok_def)
      have c: "crosses h = (\<lambda>t. \<not> (x t + width t < x (bird h))
                  \<and> x t - speedOf h + width t < x (bird h))"
        by (rule ext) (simp add: crosses_def)
      have a: "session_inv h'" using i u by (rule session_inv_update)
      have b: "score (gameState h') = score (gameState h)
                    + length (filter (\<lambda>(t, b). crosses h t \<and> crosses h b)
                        (pairs_of (thrones h)))"
        unfolding 1 c scores_tops [OF w f] ..
      have p: "livePending h' = livePending (advance h)"
        by (simp add: livePending_def th)
      have d: "score (gameState h') + livePending h' = score (gameState h) + livePending h"
        using pending_advance [OF i] by (simp add: p sc)
      show ?thesis using a b d by blast
    qed
    show ?thesis using u 1 2 by blast
  qed
  have pos: "0 < speedOf h" by (simp add: speedOf_def consts_defs add_pos_nonneg)
  show ?thesis using reach tick pos by blast
qed

theorem one_increment_per_pair_witness:
  "(\<exists>g. run [Jump, SpawnTimer (1/2), Tick] initial = Some g
       \<and> score (gameState g) = 0 \<and> livePending g = 1 \<and> pairsSpawned g = 1)
   \<and> isRunning exitState \<and> score (gameState exitState) = 1 \<and> livePending exitState = 1
   \<and> (\<exists>h'. update exitState = Some h' \<and> score (gameState h') = 2 \<and> livePending h' = 0)"
proof -
  let ?G = "\<lparr> gameState = \<lparr> running = True, gameOver = False, score = 0,
                     currentThroneSpeed = 12, musicStarted = True \<rparr>,
       bird = \<lparr> x = 400, y = 1081 / 2, width = 360, height = 203, velocity = 1 / 2 \<rparr>,
       thrones = [\<lparr> x = 1908, y = 0, width = 360, height = 140, passed = False \<rparr>,
                  \<lparr> x = 1908, y = 940, width = 360, height = 140, passed = False \<rparr>],
       trace = [PlayBackgroundMusic, HideGameOverScreen, PlayBackgroundMusic,
                SetTimeoutSpawn 2000, SetTimeoutSpawn 3000] \<rparr>"
  have e: "run [Jump, SpawnTimer (1/2), Tick] initial = Some ?G"
    by (simp add: jump_def setup_game_def initial_def emit_def Let_def spawnThrone_def
      getSpawnInterval_def update_def update_body_def checkCollisions_def overlaps_def
      consts_defs)
  note t = one_increment_per_pair [of "[Jump, SpawnTimer (1/2), Tick]" ?G exitState]
  have s0: "score (gameState ?G) = 0" and l0: "livePending ?G = 1"
    by (simp_all add: livePending_def)
  have p0: "pairsSpawned ?G = 1" using t e s0 l0 by simp
  have 1: "\<exists>g. run [Jump, SpawnTimer (1/2), Tick] initial = Some g
       \<and> score (gameState g) = 0 \<and> livePending g = 1 \<and> pairsSpawned g = 1"
    by (rule exI [of _ ?G]) (intro conjI e s0 l0 p0)
  have r: "isRunning exitState" by (simp add: isRunning_def exitState_def)
  have i: "session_inv exitState"
    by (simp add: session_inv_def flags_ok_def exitState_def consts_defs)
  have s1: "score (gameState exitState) = 1" and l1: "livePending exitState = 1"
    by (simp_all add: livePending_def exitState_def)
  have c: "length (filter (\<lambda>(t, b). crosses exitState t \<and> crosses exitState b)
                        (pairs_of (thrones exitState))) = 1"
    by (simp add: exitState_def crosses_def speedOf_def consts_defs)
  from t r i obtain h' where u: "update exitState = Some h'"
    and a: "score (gameState h') = score (gameState exitState)
                    + length (filter (\<lambda>(t, b). crosses exitState t \<and> crosses exitState b)
                        (pairs_of (thrones exitState)))"
    and b: "score (gameState h') + livePending h'
                    = score (gameState exitState) + livePending exitState"
    by blast
  have s2: "score (gameState h') = 2" using a c s1 by simp
  have l2: "livePending h' = 0" using b s2 s1 l1 by simp
  have 2: "\<exists>h'. update exitState = Some h' \<and> score (gameState h') = 2 \<and> livePending h' = 0"
    by (rule exI [of _ h']) (intro conjI u s2 l2)
  show ?thesis by (intro conjI 1 r s1 l1 2)
qed

text \<open>
  C3. In a Running frame the velocity grows by the gravity constant 0.5 and the position then
  grows by the new velocity; the frame ends the session when the bird's lower edge has
  reached the ground band. A jump in a Running session sets the velocity to -8, whatever it
  was. From velocity 0, after n frames that all start Running and with no jump in between,
  the velocity is n * 0.5 and the position has grown by the sum of the velocities
  0.5, 1, ..., n * 0.5.
\<close>

theorem gravity_and_jump:
  "GRAVITY = 0.5 \<and> JUMP_STRENGTH = - 8
   \<and> (isRunning g \<longrightarrow>
        (\<exists>g'. update g = Some g'
           \<and> velocity (bird g') = velocity (bird g) + GRAVITY
           \<and> y (bird g') = y (bird g) + velocity (bird g')
           \<and> (y (bird g') + height (bird g') \<ge> CANVAS_HEIGHT - 120
                \<longrightarrow> gameOver (gameState g') \<and> \<not> running (gameState g'))))
   \<and> (isRunning g \<longrightarrow>
        velocity (bird (jump g)) = JUMP_STRENGTH \<and> y (bird (jump g)) = y (bird g)
          \<and> isRunning (jump g))
   \<and> ((\<forall>k<n. runningAt k g) \<and> velocity (bird g) = 0 \<longrightarrow>
        (\<exists>g'. ticks n g = Some g'
           \<and> velocity (bird g') = real n * GRAVITY
           \<and> y (bird g') = y (bird g) + (\<Sum>k = 1..n. real k * GRAVITY)))"
proof -
  have a: "\<exists>g'. update g = Some g'
           \<and> velocity (bird g') = velocity (bird g) + GRAVITY
           \<and> y (bird g') = y (bird g) + velocity (bird g')
           \<and> (y (bird g') + height (bird g') \<ge> CANVAS_HEIGHT - 120
                \<longrightarrow> gameOver (gameState g') \<and> \<not> running (gameState g'))"
    if r: "isRunning g"
  proof -
    from update_running_parts [OF r] obtain g' where u: "update g = Some g'"
      and b: "bird g' = bird (advance g)"
      and go: "gameOver (gameState g') \<longleftrightarrow> hitsThrone (advance g) \<or> hitsBand (advance g)"
      and ru: "running (gameState g') \<longleftrightarrow> \<not> (hitsThrone (advance g) \<or> hitsBand (advance g))"
      by blast
    have "velocity (bird g') = velocity (bird g) + GRAVITY"
      by (simp add: b advance_bird)
    moreover have "y (bird g') = y (bird g) + velocity (bird g')"
      by (simp add: b advance_bird)
    moreover have "gameOver (gameState g') \<and> \<not> running (gameState g')"
      if "y (bird g') + height (bird g') \<ge> CANVAS_HEIGHT - 120"
      using that go ru by (simp add: hitsBand_def b)
    ultimately show ?thesis using u by blast
  qed
  have j: "velocity (bird (jump g)) = JUMP_STRENGTH \<and> y (bird (jump g)) = y (bird g)
          \<and> isRunning (jump g)"
    if "isRunning g"
    using that by (simp add: jump_def isRunning_def emit_def Let_def)
  have f: "\<exists>g'. ticks n g = Some g'
           \<and> velocity (bird g') = real n * GRAVITY
           \<and> y (bird g') = y (bird g) + (\<Sum>k = 1..n. real k * GRAVITY)"
    if h: "\<forall>k<n. runningAt k g" and z: "velocity (bird g) = 0"
  proof -
    from ticks_fall [OF h] obtain g' where t: "ticks n g = Some g'"
      and v: "velocity (bird g') = velocity (bird g) + real n * GRAVITY"
      and p: "y (bird g') = y (bird g) + real n * velocity (bird g)
                       + GRAVITY * (real n * (real n + 1) / 2)"
      by blast
    have "velocity (bird g') = real n * GRAVITY" using v z by simp
    moreover have "y (bird g') = y (bird g) + (\<Sum>k = 1..n. real k * GRAVITY)"
      unfolding sum_velocities using p z by simp
    ultimately show ?thesis using t by blast
  qed
  show ?thesis using a j f by (simp add: consts_defs)
qed

theorem gravity_and_jump_witness:
  "velocity (bird (jump (jump initial))) = - 8
   \<and> (\<exists>g'. update (jump initial) = Some g' \<and> velocity (bird g') = 1 / 2
          \<and> y (bird g') = 540 + 1 / 2)
   \<and> runningAt 28 (jump initial)
   \<and> (\<exists>g'. ticks 29 (jump initial) = Some g' \<and> velocity (bird g') = 29 / 2
          \<and> y (bird g') = 540 + 435 / 2 \<and> gameOver (gameState g'))"
proof -
  have ji: "jump initial = \<lparr> gameState = \<lparr> running = True, gameOver = False, score = 0,
                     currentThroneSpeed = 12, musicStarted = True \<rparr>,
       bird = \<lparr> x = 400, y = 540, width = 360, height = 203, velocity = 0 \<rparr>,
       thrones = [],
       trace = [PlayBackgroundMusic, HideGameOverScreen, PlayBackgroundMusic,
                SetTimeoutSpawn 2000] \<rparr>"
    by (simp add: jump_def setup_game_def initial_def emit_def Let_def consts_defs)
  have upd_empty: "update \<lparr> gameState = \<lparr> running = True, gameOver = False, score = s,
                     currentThroneSpeed = c, musicStarted = m \<rparr>,
       bird = \<lparr> x = bx, y = by, width = w, height = h, velocity = v \<rparr>,
       thrones = [], trace = tr \<rparr>
   = Some (if by + (v + 1/2) + h \<ge> 960 \<or> by + (v + 1/2) \<le> 120 then
      \<lparr> gameState = \<lparr> running = False, gameOver = True, score = s,
                     currentThroneSpeed = 12 + real s / 10, musicStarted = m \<rparr>,
       bird = \<lparr> x = bx, y = by + (v + 1/2), width = w, height = h, velocity = v + 1/2 \<rparr>,
       thrones = [], trace = tr @ [ShowGameOverScreen, PauseBackgroundMusic] \<rparr>
     else \<lparr> gameState = \<lparr> running = True, gameOver = False, score = s,
                     currentThroneSpeed = 12 + real s / 10, musicStarted = m \<rparr>,
       bird = \<lparr> x = bx, y = by + (v + 1/2), width = w, height = h, velocity = v + 1/2 \<rparr>,
       thrones = [], trace = tr \<rparr>)" for s c m bx "by" w h v tr
    by (simp add: update_def Let_def checkCollisions_def endGame_def emit_def consts_defs)
  have r28: "runningAt 28 (jump initial)"
    unfolding ji by (simp add: runningAt_def eval_nat_numeral upd_empty isRunning_def)
  have r: "isRunning (jump initial)"
    using runningAt_below [OF r28, of 0] by (simp add: runningAt_0)
  have all: "\<forall>k<29. runningAt k (jump initial)"
    using runningAt_below [OF r28] by simp
  have go: "\<exists>g'. ticks 29 (jump initial) = Some g' \<and> gameOver (gameState g')"
    unfolding ji by (simp add: eval_nat_numeral upd_empty)
  have v0: "velocity (bird (jump initial)) = 0" "y (bird (jump initial)) = 540"
    by (simp_all add: ji)
  have s: "(\<Sum>k = 1..29. real k * GRAVITY) = 435 / 2"
    unfolding sum_velocities by (simp add: GRAVITY_def)
  note t = gravity_and_jump [of "jump initial" 29]
  have 1: "velocity (bird (jump (jump initial))) = - 8"
    using t r by simp
  have 2: "\<exists>g'. update (jump initial) = Some g' \<and> velocity (bird g') = 1 / 2
          \<and> y (bird g') = 540 + 1 / 2"
    using t r v0 by auto
  have 3: "\<exists>g'. ticks 29 (jump initial) = Some g' \<and> velocity (bird g') = 29 / 2
          \<and> y (bird g') = 540 + 435 / 2 \<and> gameOver (gameState g')"
    using t all v0 s go by auto
  show ?thesis using 1 2 r28 3 by blast
qed

text \<open>
  C4. A Running frame stores the speed \<open>12 + score * 0.1\<close> of the score it starts with and
  moves every throne left by that speed, whatever speed was stored before.
\<close>

theorem speed_recomputed_each_tick:
  assumes "isRunning g"
  shows "\<exists>g'. update g = Some g'
     \<and> currentThroneSpeed (gameState g')
         = INITIAL_THRONE_SPEED + real (score (gameState g)) * SPEED_INCREASE_RATE
     \<and> currentThroneSpeed (gameState g') = 12 + real (score (gameState g)) * 0.1
     \<and> map x (thrones g')
         = map (\<lambda>t. x t - (12 + real (score (gameState g)) * 0.1))
             (filter (\<lambda>t. \<not> (x t - (12 + real (score (gameState g)) * 0.1) + width t < 0))
                (thrones g))
     \<and> update (g\<lparr> gameState := (gameState g)\<lparr> currentThroneSpeed := c \<rparr> \<rparr>) = Some g'"
proof -
  from update_running_parts [OF assms] obtain g' where u: "update g = Some g'"
    and th: "thrones g' = thrones (advance g)"
    and sp: "currentThroneSpeed (gameState g') = speedOf g"
    by blast
  have v: "speedOf g = 12 + real (score (gameState g)) * 0.1"
    by (simp add: speedOf_def consts_defs)
  have m: "map x (thrones g') = map (\<lambda>t. x t - speedOf g)
             (filter (\<lambda>t. \<not> (x t - speedOf g + width t < 0)) (thrones g))"
    by (simp add: th advance_thrones map_x_moved)
  have c: "update (g\<lparr> gameState := (gameState g)\<lparr> currentThroneSpeed := c \<rparr> \<rparr>) = update g"
    using assms by (simp add: update_def isRunning_def Let_def)
  show ?thesis
    using u sp m c unfolding v by (simp add: speedOf_def consts_defs)
qed

theorem speed_recomputed_each_tick_witness:
  "\<exists>g'. update collisionState = Some g'
     \<and> currentThroneSpeed (gameState g') = 123 / 10
     \<and> map x (thrones g') = [4877 / 10, 4877 / 10]
     \<and> update (collisionState\<lparr> gameState :=
           (gameState collisionState)\<lparr> currentThroneSpeed := 99 \<rparr> \<rparr>) = Some g'"
proof -
  have r: "isRunning collisionState"
    by (simp add: isRunning_def collisionState_def)
  from speed_recomputed_each_tick [OF r, of 99] obtain g'
    where u: "update collisionState = Some g'"
      and sp: "currentThroneSpeed (gameState g')
                 = 12 + real (score (gameState collisionState)) * 0.1"
      and m: "map x (thrones g')
         = map (\<lambda>t. x t - (12 + real (score (gameState collisionState)) * 0.1))
             (filter (\<lambda>t. \<not> (x t - (12 + real (score (gameState collisionState)) * 0.1)
                                + width t < 0))
                (thrones collisionState))"
      and c: "update (collisionState\<lparr> gameState :=
           (gameState collisionState)\<lparr> currentThroneSpeed := 99 \<rparr> \<rparr>) = Some g'"
    by blast
  have sp': "currentThroneSpeed (gameState g') = 123 / 10"
    using sp by (simp add: collisionState_def)
  have m': "map x (thrones g') = [4877 / 10, 4877 / 10]"
    using m by (simp add: collisionState_def)
  show ?thesis by (rule exI [of _ g']) (intro conjI u sp' m' c)
qed

text \<open>
  C5. The spawn interval is the first matching band of the current score: 3000 ms below 10,
  2500 ms below 20, 2000 ms below 50, 1500 ms below 100 and 1000 ms otherwise; at score 10
  it is 2500 ms. \<^verbatim>\<open>spawnThrone\<close> re-arms the timer with the interval of the score it sees.
\<close>

theorem getSpawnInterval_bands:
  "getSpawnInterval g =
     (if score (gameState g) < 10 then 3000
      else if score (gameState g) < 20 then 2500
      else if score (gameState g) < 50 then 2000
      else if score (gameState g) < 100 then 1500
      else 1000)
   \<and> (score (gameState g) = 10 \<longrightarrow> getSpawnInterval g = 2500)
   \<and> (isRunning g \<longrightarrow>
        trace (spawnThrone r g) = trace g @ [SetTimeoutSpawn (getSpawnInterval g)])"
  by (simp add: getSpawnInterval_def spawnThrone_def isRunning_def emit_def Let_def
      INITIAL_SPAWN_INTERVAL_def)

theorem getSpawnInterval_bands_witness:
  "getSpawnInterval ((jump initial)\<lparr> gameState := (gameState (jump initial))\<lparr> score := 10 \<rparr> \<rparr>) = 2500
   \<and> trace (spawnThrone 0 ((jump initial)\<lparr> gameState := (gameState (jump initial))\<lparr> score := 10 \<rparr> \<rparr>))
       = [PlayBackgroundMusic, HideGameOverScreen, PlayBackgroundMusic, SetTimeoutSpawn 2000,
          SetTimeoutSpawn 2500]"
  using getSpawnInterval_bands
    [of "(jump initial)\<lparr> gameState := (gameState (jump initial))\<lparr> score := 10 \<rparr> \<rparr>" 0]
  by (simp add: isRunning_def jump_def setup_game_def initial_def emit_def Let_def)

text \<open>
  C6. The end-session signal is idempotent: \<^verbatim>\<open>endGame\<close> on a session that is already
  GameOver changes nothing, a second \<^verbatim>\<open>endGame\<close> changes nothing, and \<^verbatim>\<open>endGame\<close> never
  changes the score. A Running frame ends the session exactly when, after the move, the bird
  overlaps a throne or touches a band; whether one of the two conditions holds or both, the
  flags flip and the game-over screen and the music pause are each called one time. The
  frames after that change nothing.
\<close>

theorem endGame_once:
  "(gameOver (gameState g) \<longrightarrow> endGame g = g)
   \<and> endGame (endGame g) = endGame g
   \<and> score (gameState (endGame g)) = score (gameState g)
   \<and> (isRunning g \<longrightarrow>
        (\<exists>g'. update g = Some g'
           \<and> (hitsThrone g' \<or> hitsBand g' \<longrightarrow>
                gameOver (gameState g') \<and> \<not> running (gameState g')
                \<and> trace g' = trace g @ [ShowGameOverScreen, PauseBackgroundMusic]
                \<and> update g' = Some g' \<and> endGame g' = g')
           \<and> (\<not> (hitsThrone g' \<or> hitsBand g') \<longrightarrow>
                isRunning g' \<and> trace g' = trace g)))"
proof -
  have "\<exists>g'. update g = Some g'
           \<and> (hitsThrone g' \<or> hitsBand g' \<longrightarrow>
                gameOver (gameState g') \<and> \<not> running (gameState g')
                \<and> trace g' = trace g @ [ShowGameOverScreen, PauseBackgroundMusic]
                \<and> update g' = Some g' \<and> endGame g' = g')
           \<and> (\<not> (hitsThrone g' \<or> hitsBand g') \<longrightarrow>
                isRunning g' \<and> trace g' = trace g)"
    if r: "isRunning g"
  proof -
    from update_running_parts [OF r] obtain g' where u: "update g = Some g'"
      and bd: "bird g' = bird (advance g)"
      and th: "thrones g' = thrones (advance g)"
      and go: "gameOver (gameState g') \<longleftrightarrow> hitsThrone (advance g) \<or> hitsBand (advance g)"
      and ru: "running (gameState g') \<longleftrightarrow> \<not> (hitsThrone (advance g) \<or> hitsBand (advance g))"
      and tr: "trace g' = trace g @ (if hitsThrone (advance g) \<or> hitsBand (advance g)
                               then [ShowGameOverScreen, PauseBackgroundMusic] else [])"
      by blast
    have ht: "hitsThrone g' \<longleftrightarrow> hitsThrone (advance g)"
      by (simp add: hitsThrone_def bd th)
    have hb: "hitsBand g' \<longleftrightarrow> hitsBand (advance g)"
      by (simp add: hitsBand_def bd)
    have 1: "gameOver (gameState g') \<and> \<not> running (gameState g')
                \<and> trace g' = trace g @ [ShowGameOverScreen, PauseBackgroundMusic]
                \<and> update g' = Some g' \<and> endGame g' = g'"
      if h: "hitsThrone g' \<or> hitsBand g'"
    proof -
      have o: "gameOver (gameState g')" using h go ht hb by simp
      then have "\<not> isRunning g'" by (simp add: isRunning_def)
      then have "update g' = Some g'" by (rule update_not_running)
      moreover have "endGame g' = g'" using o by (rule endGame_gameOver)
      ultimately show ?thesis using o h ru tr ht hb by simp
    qed
    have 2: "isRunning g' \<and> trace g' = trace g"
      if h: "\<not> (hitsThrone g' \<or> hitsBand g')"
      using h go ru tr ht hb by (simp add: isRunning_def)
    show ?thesis using u 1 2 by blast
  qed
  then show ?thesis
    by (simp add: endGame_gameOver endGame_twice)
qed

theorem endGame_once_witness:
  "isRunning collisionState
   \<and> (\<exists>g'. update collisionState = Some g'
          \<and> hitsThrone g' \<and> hitsBand g'
          \<and> gameOver (gameState g') \<and> \<not> running (gameState g')
          \<and> trace g' = [ShowGameOverScreen, PauseBackgroundMusic]
          \<and> update g' = Some g' \<and> endGame g' = g')"
proof -
  have r: "isRunning collisionState"
    by (simp add: isRunning_def collisionState_def)
  from update_running_parts [OF r] obtain k where uk: "update collisionState = Some k"
    and bd: "bird k = bird (advance collisionState)"
    and th: "thrones k = thrones (advance collisionState)"
    by blast
  have a: "thrones (advance collisionState) =
      [\<lparr> x = 4877 / 10, y = 0, width = 360, height = 140, passed = False \<rparr>,
       \<lparr> x = 4877 / 10, y = 940, width = 360, height = 140, passed = False \<rparr>]"
    by (simp add: advance_def speedOf_def collisionState_def moved_def offscreen_def consts_defs)
  have b: "bird (advance collisionState) =
      \<lparr> x = 400, y = 1611 / 2, width = 360, height = 203, velocity = 11 / 2 \<rparr>"
    by (simp add: advance_def collisionState_def consts_defs)
  have t: "hitsThrone k"
    by (simp add: hitsThrone_def bd th a b overlaps_def)
  have h: "hitsBand k"
    by (simp add: hitsBand_def bd b consts_defs)
  have tr: "trace collisionState = []" by (simp add: collisionState_def)
  from endGame_once [of collisionState] r uk t h tr
  have "gameOver (gameState k) \<and> \<not> running (gameState k)
          \<and> trace k = [ShowGameOverScreen, PauseBackgroundMusic]
          \<and> update k = Some k \<and> endGame k = k"
    by simp
  then have "\<exists>g'. update collisionState = Some g'
          \<and> hitsThrone g' \<and> hitsBand g'
          \<and> gameOver (gameState g') \<and> \<not> running (gameState g')
          \<and> trace g' = [ShowGameOverScreen, PauseBackgroundMusic]
          \<and> update g' = Some g' \<and> endGame g' = g'"
    using uk t h by blast
  then show ?thesis using r by blast
qed

text \<open>
  C7. A jump while the session is Idle or GameOver starts a fresh session: Running, score 0,
  no thrones (whatever thrones were left), the bird at the vertical centre with velocity 0,
  the speed at its base value, and the spawn timer armed with 2000 ms as the last call.
  The new state is the same whether the session was Idle or GameOver.
\<close>

theorem jump_starts_fresh_session:
  assumes "\<not> isRunning g"
  shows "gameState (jump g) = \<lparr> running = True, gameOver = False, score = 0,
            currentThroneSpeed = INITIAL_THRONE_SPEED, musicStarted = True \<rparr>
    \<and> thrones (jump g) = []
    \<and> bird (jump g) = (bird g)\<lparr> y := CANVAS_HEIGHT / 2, velocity := 0 \<rparr>
    \<and> trace (jump g) = trace g
          @ (if musicStarted (gameState g) then [] else [PlayBackgroundMusic])
          @ [HideGameOverScreen, PlayBackgroundMusic, SetTimeoutSpawn 2000]
    \<and> (\<not> isRunning g' \<longrightarrow>
        gameState (jump g') = gameState (jump g) \<and> thrones (jump g') = thrones (jump g)
          \<and> y (bird (jump g')) = y (bird (jump g))
          \<and> velocity (bird (jump g')) = velocity (bird (jump g)))"
proof -
  have j: "jump h = setup_game (if musicStarted (gameState h) then h
             else (emit PlayBackgroundMusic h)\<lparr> gameState :=
                       (gameState h)\<lparr> musicStarted := True \<rparr> \<rparr>)"
    if "\<not> isRunning h" for h
    using that by (auto simp add: jump_def isRunning_def emit_def Let_def)
  have s: "gameState (jump h) = \<lparr> running = True, gameOver = False, score = 0,
            currentThroneSpeed = INITIAL_THRONE_SPEED, musicStarted = True \<rparr>
      \<and> thrones (jump h) = []
      \<and> bird (jump h) = (bird h)\<lparr> y := CANVAS_HEIGHT / 2, velocity := 0 \<rparr>
      \<and> trace (jump h) = trace h
          @ (if musicStarted (gameState h) then [] else [PlayBackgroundMusic])
          @ [HideGameOverScreen, PlayBackgroundMusic, SetTimeoutSpawn 2000]"
    if "\<not> isRunning h" for h
    unfolding j [OF that] by (simp add: setup_game_def emit_def Let_def)
  show ?thesis
    using s [OF assms] s [of g'] by simp
qed

theorem jump_starts_fresh_session_witness:
  "gameState (jump initial) = \<lparr> running = True, gameOver = False, score = 0,
            currentThroneSpeed = 12, musicStarted = True \<rparr>
   \<and> thrones (endGame (spawnThrone (1/2) (jump initial))) \<noteq> []
   \<and> thrones (jump (endGame (spawnThrone (1/2) (jump initial)))) = []
   \<and> gameState (jump (endGame (spawnThrone (1/2) (jump initial)))) = gameState (jump initial)
   \<and> trace (jump initial)
       = [PlayBackgroundMusic, HideGameOverScreen, PlayBackgroundMusic, SetTimeoutSpawn 2000]"
proof -
  let ?over = "endGame (spawnThrone (1/2) (jump initial))"
  have a: "\<not> isRunning initial" by (simp add: isRunning_def initial_def)
  have b: "\<not> isRunning ?over" by (simp add: isRunning_def)
  note f = jump_starts_fresh_session [OF a, of ?over]
  have 1: "gameState (jump initial) = \<lparr> running = True, gameOver = False, score = 0,
            currentThroneSpeed = 12, musicStarted = True \<rparr>"
    using f by (simp add: INITIAL_THRONE_SPEED_def)
  have c: "isRunning (jump initial)" by (simp add: 1 isRunning_def)
  have 2: "thrones ?over \<noteq> []"
    using c by (simp add: spawnThrone_def isRunning_def emit_def Let_def)
  have 3: "thrones (jump ?over) = []"
    using jump_starts_fresh_session [OF b, of initial] by blast
  have 4: "gameState (jump ?over) = gameState (jump initial)"
    using f b by blast
  have 5: "trace (jump initial)
       = [PlayBackgroundMusic, HideGameOverScreen, PlayBackgroundMusic, SetTimeoutSpawn 2000]"
    using f by (simp add: initial_def)
  show ?thesis using 1 2 3 4 5 by blast
qed

text \<open>
  C8. While the session is not Running, a frame changes nothing and a spawn timer that fires
  appends no throne and arms no timer.
\<close>

theorem quiescent_when_not_running:
  assumes "\<not> isRunning g"
  shows "update g = Some g \<and> spawnThrone r g = g"
  using assms by (auto simp add: update_not_running spawnThrone_def isRunning_def)

theorem quiescent_when_not_running_witness:
  "update initial = Some initial \<and> spawnThrone (1/2) initial = initial
   \<and> update (endGame (jump initial)) = Some (endGame (jump initial))
   \<and> spawnThrone (1/2) (endGame (jump initial)) = endGame (jump initial)"
proof -
  have a: "\<not> isRunning initial" by (simp add: isRunning_def initial_def)
  have b: "\<not> isRunning (endGame (jump initial))" by (simp add: isRunning_def)
  show ?thesis
    using quiescent_when_not_running [OF a, of "1/2"]
      quiescent_when_not_running [OF b, of "1/2"] by simp
qed

text \<open>
  C9. After a Running frame no throne with \<open>x + width < 0\<close> is left: the loop moves every
  throne of the frame and keeps exactly those that are still on the field, in their order.
\<close>

theorem no_offscreen_throne_after_tick:
  assumes "isRunning g"
  shows "\<exists>g'. update g = Some g'
     \<and> (\<forall>t \<in> set (thrones g'). \<not> (x t + width t < 0))
     \<and> thrones g' = filter (\<lambda>t. \<not> (x t + width t < 0))
                       (map (moved (speedOf g) (x (bird g))) (thrones g))"
proof -
  from update_running_parts [OF assms] obtain g' where u: "update g = Some g'"
    and th: "thrones g' = thrones (advance g)"
    by blast
  show ?thesis
    using u th by (auto simp add: advance_thrones offscreen_def)
qed

theorem no_offscreen_throne_after_tick_witness:
  "\<exists>g'. update exitState = Some g'
     \<and> map x (thrones exitState) = [- 355, - 355, 45, 45]
     \<and> thrones g' = [\<lparr> x = 329 / 10, y = 0, width = 360, height = 100, passed = True \<rparr>,
                     \<lparr> x = 329 / 10, y = 900, width = 360, height = 180, passed = True \<rparr>]"
proof -
  have r: "isRunning exitState"
    by (simp add: isRunning_def exitState_def)
  from no_offscreen_throne_after_tick [OF r] obtain g'
    where u: "update exitState = Some g'"
      and t: "thrones g' = filter (\<lambda>t. \<not> (x t + width t < 0))
                       (map (moved (speedOf exitState) (x (bird exitState))) (thrones exitState))"
    by blast
  have a: "map x (thrones exitState) = [- 355, - 355, 45, 45]"
    by (simp add: exitState_def)
  have b: "thrones g' = [\<lparr> x = 329 / 10, y = 0, width = 360, height = 100, passed = True \<rparr>,
                     \<lparr> x = 329 / 10, y = 900, width = 360, height = 180, passed = True \<rparr>]"
    unfolding t by (simp add: exitState_def speedOf_def moved_def consts_defs)
  show ?thesis by (rule exI [of _ g']) (intro conjI u a b)
qed

text \<open>
  C10. In every state that a session can reach, the throne array consists of whole pairs:
  its length is even, every even position holds a top throne (\<open>y = 0\<close>) and the next
  position holds its bottom throne, at the same \<open>x\<close>, with the same width, beginning
  \<^verbatim>\<open>THRONE_GAP\<close> below the end of the top throne. A Running frame moves both thrones of a
  pair by the same speed and keeps or removes the two together. \<^verbatim>\<open>jump\<close>, \<^verbatim>\<open>spawnThrone\<close>,
  \<^verbatim>\<open>endGame\<close> and \<^verbatim>\<open>update\<close> all keep the array in whole pairs.
\<close>

theorem thrones_are_whole_pairs:
  "(\<exists>g'. run evs initial = Some g')
   \<and> (run evs initial = Some g \<longrightarrow>
        even (length (thrones g))
        \<and> (\<forall>k. 2 * k + 1 < length (thrones g) \<longrightarrow>
              y (thrones g ! (2 * k)) = 0
              \<and> x (thrones g ! (2 * k + 1)) = x (thrones g ! (2 * k))
              \<and> width (thrones g ! (2 * k + 1)) = width (thrones g ! (2 * k))
              \<and> y (thrones g ! (2 * k + 1)) = height (thrones g ! (2 * k)) + THRONE_GAP)
        \<and> whole_pairs (thrones g))
   \<and> (whole_pairs (thrones h) \<longrightarrow>
        whole_pairs (thrones (jump h)) \<and> whole_pairs (thrones (spawnThrone r h))
        \<and> whole_pairs (thrones (endGame h))
        \<and> (\<exists>h'. update h = Some h' \<and> whole_pairs (thrones h')
              \<and> (isRunning h \<longrightarrow> thrones h' =
                    concat (map (\<lambda>(t, b). [moved (speedOf h) (x (bird h)) t,
                                            moved (speedOf h) (x (bird h)) b])
                      (filter (\<lambda>(t, b). \<not> (x t - speedOf h + width t < 0))
                         (pairs_of (thrones h)))))))"
proof -
  have total: "\<exists>g'. run evs initial = Some g'" by (rule run_total)
  have reach: "even (length (thrones g))
        \<and> (\<forall>k. 2 * k + 1 < length (thrones g) \<longrightarrow>
              y (thrones g ! (2 * k)) = 0
              \<and> x (thrones g ! (2 * k + 1)) = x (thrones g ! (2 * k))
              \<and> width (thrones g ! (2 * k + 1)) = width (thrones g ! (2 * k))
              \<and> y (thrones g ! (2 * k + 1)) = height (thrones g ! (2 * k)) + THRONE_GAP)
        \<and> whole_pairs (thrones g)"
    if r: "run evs initial = Some g"
  proof -
    have "session_inv initial \<and> count_inv initial" by (simp add: session_inv_initial)
    from run_inv [OF this r] have w: "whole_pairs (thrones g)"
      by (simp add: session_inv_def)
    from whole_pairs_nth [OF w] w show ?thesis by simp
  qed
  have ops: "whole_pairs (thrones (jump h)) \<and> whole_pairs (thrones (spawnThrone r h))
        \<and> whole_pairs (thrones (endGame h))
        \<and> (\<exists>h'. update h = Some h' \<and> whole_pairs (thrones h')
              \<and> (isRunning h \<longrightarrow> thrones h' =
                    concat (map (\<lambda>(t, b). [moved (speedOf h) (x (bird h)) t,
                                            moved (speedOf h) (x (bird h)) b])
                      (filter (\<lambda>(t, b). \<not> (x t - speedOf h + width t < 0))
                         (pairs_of (thrones h))))))"
    if w: "whole_pairs (thrones h)"
  proof -
    obtain h' where u: "update h = Some h'" using update_total by blast
    have 1: "whole_pairs (thrones h')" using w u by (rule whole_pairs_update)
    have 2: "thrones h' =
                    concat (map (\<lambda>(t, b). [moved (speedOf h) (x (bird h)) t,
                                            moved (speedOf h) (x (bird h)) b])
                      (filter (\<lambda>(t, b). \<not> (x t - speedOf h + width t < 0))
                         (pairs_of (thrones h))))"
      if r: "isRunning h"
    proof -
      from update_running_parts [OF r] obtain k where "update h = Some k"
        and "thrones k = thrones (advance h)"
        by blast
      with u have "thrones h' = thrones (advance h)" by simp
      then show ?thesis
        by (simp add: advance_thrones pairs_moved [OF w])
    qed
    show ?thesis
      using w u 1 2 by (simp add: whole_pairs_jump whole_pairs_spawnThrone)
  qed
  show ?thesis using total reach ops by blast
qed

theorem thrones_are_whole_pairs_witness:
  "(\<exists>g. run [Jump, SpawnTimer (1/2), Tick] initial = Some g
       \<and> length (thrones g) = 2
       \<and> y (thrones g ! 0) = 0 \<and> x (thrones g ! 0) = 1908 \<and> x (thrones g ! 1) = 1908
       \<and> height (thrones g ! 0) = 140 \<and> y (thrones g ! 1) = 940)
   \<and> whole_pairs (thrones exitState) \<and> length (thrones exitState) = 4
   \<and> (\<exists>h'. update exitState = Some h' \<and> whole_pairs (thrones h')
         \<and> map x (thrones h') = [329 / 10, 329 / 10])"
proof -
  let ?G = "\<lparr> gameState = \<lparr> running = True, gameOver = False, score = 0,
                     currentThroneSpeed = 12, musicStarted = True \<rparr>,
       bird = \<lparr> x = 400, y = 1081 / 2, width = 360, height = 203, velocity = 1 / 2 \<rparr>,
       thrones = [\<lparr> x = 1908, y = 0, width = 360, height = 140, passed = False \<rparr>,
                  \<lparr> x = 1908, y = 940, width = 360, height = 140, passed = False \<rparr>],
       trace = [PlayBackgroundMusic, HideGameOverScreen, PlayBackgroundMusic,
                SetTimeoutSpawn 2000, SetTimeoutSpawn 3000] \<rparr>"
  have e: "run [Jump, SpawnTimer (1/2), Tick] initial = Some ?G"
    by (simp add: jump_def setup_game_def initial_def emit_def Let_def spawnThrone_def
      getSpawnInterval_def update_def update_body_def checkCollisions_def overlaps_def
      consts_defs)
  have w: "whole_pairs (thrones exitState)"
    by (simp add: exitState_def consts_defs)
  have r: "isRunning exitState" by (simp add: isRunning_def exitState_def)
  note t = thrones_are_whole_pairs [of "[Jump, SpawnTimer (1/2), Tick]" ?G exitState]
  have 1: "\<exists>g. run [Jump, SpawnTimer (1/2), Tick] initial = Some g
       \<and> length (thrones g) = 2
       \<and> y (thrones g ! 0) = 0 \<and> x (thrones g ! 0) = 1908 \<and> x (thrones g ! 1) = 1908
       \<and> height (thrones g ! 0) = 140 \<and> y (thrones g ! 1) = 940"
    by (rule exI [of _ ?G], intro conjI, rule e) simp_all
  from t w r obtain h' where u: "update exitState = Some h'"
    and wh: "whole_pairs (thrones h')"
    and th: "thrones h' =
                    concat (map (\<lambda>(t, b). [moved (speedOf exitState) (x (bird exitState)) t,
                                            moved (speedOf exitState) (x (bird exitState)) b])
                      (filter (\<lambda>(t, b). \<not> (x t - speedOf exitState + width t < 0))
                         (pairs_of (thrones exitState))))"
    by blast
  have m: "map x (thrones h') = [329 / 10, 329 / 10]"
    unfolding th by (simp add: exitState_def speedOf_def moved_def consts_defs)
  have 2: "\<exists>h'. update exitState = Some h' \<and> whole_pairs (thrones h')
         \<and> map x (thrones h') = [329 / 10, 329 / 10]"
    by (rule exI [of _ h']) (intro conjI u wh m)
  have 3: "length (thrones exitState) = 4" by (simp add: exitState_def)
  show ?thesis by (intro conjI 1 w 3 2)
qed

end
